theory Spec2Isabelle
  imports Main "HOL-Library.Sublist" "HOL-Library.AList"
begin

section \<open>Strings as the scripts use them\<close>

text \<open>
  Python strings are modelled as \<^typ>\<open>string\<close>; a \<^typ>\<open>char\<close> stands for a code
  point below 256 (Latin-1), the range in which \<open>str.strip\<close>, \<open>str.lower\<close> and the
  case-insensitive match of the ASCII marker words are written out below.
\<close>

definition is_space :: "char \<Rightarrow> bool" where
  \<comment> \<open>\<open>str.isspace\<close> on one character: TAB..CR, FS..US, SPACE, NEL, NBSP\<close>
  "is_space c = (let n = (of_char c :: nat) in
     (9 \<le> n \<and> n \<le> 13) \<or> (28 \<le> n \<and> n \<le> 32) \<or> n = 133 \<or> n = 160)"

definition strip :: "string \<Rightarrow> string" where
  \<comment> \<open>\<open>s.strip()\<close>\<close>
  "strip s = rev (dropWhile is_space (rev (dropWhile is_space s)))"

definition lower_char :: "char \<Rightarrow> char" where
  \<comment> \<open>\<open>c.lower()\<close>: A..Z and the Latin-1 capitals (not the multiplication sign)\<close>
  "lower_char c = (let n = (of_char c :: nat) in
     if (65 \<le> n \<and> n \<le> 90) \<or> (192 \<le> n \<and> n \<le> 222 \<and> n \<noteq> 215)
     then char_of (n + 32) else c)"

definition lower :: "string \<Rightarrow> string" where
  "lower s = map lower_char s"

definition endswith :: "string \<Rightarrow> string \<Rightarrow> bool" where
  \<comment> \<open>\<open>s.endswith(suf)\<close>\<close>
  "endswith s suf = (length suf \<le> length s \<and> drop (length s - length suf) s = suf)"

definition startswith :: "string \<Rightarrow> string \<Rightarrow> bool" where
  "startswith s pre = (take (length pre) s = pre)"

fun join :: "string \<Rightarrow> string list \<Rightarrow> string" where
  \<comment> \<open>\<open>sep.join(xs)\<close>\<close>
  "join sep [] = []"
| "join sep [x] = x"
| "join sep (x # y # ys) = x @ sep @ join sep (y # ys)"

fun replace_from :: "string \<Rightarrow> string \<Rightarrow> nat \<Rightarrow> string \<Rightarrow> string" where
  \<comment> \<open>the scan of \<open>s.replace(old, new)\<close>; the counter is the number of characters
      of a matched occurrence still to be skipped\<close>
  "replace_from old new k [] = []"
| "replace_from old new (Suc k) (c # cs) = replace_from old new k cs"
| "replace_from old new 0 (c # cs) =
     (if startswith (c # cs) old then new @ replace_from old new (length old - 1) cs
      else c # replace_from old new 0 cs)"

definition replace :: "string \<Rightarrow> string \<Rightarrow> string \<Rightarrow> string" where
  \<comment> \<open>\<open>s.replace(old, new)\<close> for a non-empty \<open>old\<close>: leftmost occurrences, not overlapping\<close>
  "replace s old new = replace_from old new 0 s"

definition markers :: "string list" where
  "markers = [''references'', ''bibliography'', ''acknowledg'', ''agradecimientos'']"

definition marker_at :: "string \<Rightarrow> bool" where
  \<comment> \<open>the pattern \<open>(references|bibliography|acknowledg|agradecimientos)\<close> with
      \<open>re.IGNORECASE\<close> matches at the start of \<open>s\<close>\<close>
  "marker_at s = (\<exists>m \<in> set markers. lower (take (length m) s) = m)"

fun split_head :: "string \<Rightarrow> string" where
  \<comment> \<open>\<open>re.split(pattern, s, flags=re.IGNORECASE)[0]\<close>: the text before the leftmost match,
      all of \<open>s\<close> when nothing matches\<close>
  "split_head [] = []"
| "split_head (c # cs) = (if marker_at (c # cs) then [] else c # split_head cs)"

section \<open>The structured document\<close>

text \<open>
  An \<open>xml.etree.ElementTree\<close> element: its tag (\<open>{namespace}local\<close> for a namespaced
  element), its attributes \<open>text\<close> and \<open>tail\<close> (here \<open>etext\<close> and \<open>etail\<close>; \<open>None\<close> when
  there is no character data) and its children in document order.
\<close>

datatype element = Element (tag: string) (etext: "string option") (etail: "string option")
  (children: "element list")

datatype error =
    ParseError | FileNotFoundError | AttributeError
  | IsADirectoryError string | ValueError | ZeroDivisionError

definition NS_tei :: string where
  "NS_tei = ''http://www.tei-c.org/ns/1.0''"

definition tei :: "string \<Rightarrow> string" where
  \<comment> \<open>how the path compiler expands \<open>tei:name\<close> with the mapping \<open>NS\<close>\<close>
  "tei name = ''{'' @ NS_tei @ ''}'' @ name"

fun iter :: "element \<Rightarrow> element list" where
  \<comment> \<open>\<open>e.iter()\<close>: the element, then its descendants, in document order\<close>
  "iter (Element t x y cs) = Element t x y cs # concat (map iter cs)"

definition truthy :: "string option \<Rightarrow> bool" where
  \<comment> \<open>\<open>if t:\<close> for a value that is \<open>None\<close> or a string\<close>
  "truthy t = (case t of None \<Rightarrow> False | Some s \<Rightarrow> s \<noteq> [])"

fun itertext :: "element \<Rightarrow> string list" where
  \<comment> \<open>\<open>e.itertext()\<close>: the element's text, then for each child its inner text and its tail\<close>
  "itertext (Element t x y cs) =
     (if truthy x then [the x] else []) @
     concat (map (\<lambda>c. itertext c @ (if truthy (etail c) then [the (etail c)] else [])) cs)"

definition descendants :: "element \<Rightarrow> string \<Rightarrow> element list" where
  \<comment> \<open>the step \<open>.//name\<close>: every element below the root with this tag, never the root itself\<close>
  "descendants root t = filter (\<lambda>e. tag e = t) (tl (iter root))"

definition child_step :: "element list \<Rightarrow> string \<Rightarrow> element list" where
  \<comment> \<open>the step \<open>/name\<close>: the children with this tag of each element selected so far\<close>
  "child_step es t = concat (map (\<lambda>e. filter (\<lambda>c. tag c = t) (children e)) es)"

definition find_first :: "element list \<Rightarrow> element option" where
  \<comment> \<open>\<open>find\<close> returns the first selected element or \<open>None\<close>\<close>
  "find_first es = (case es of [] \<Rightarrow> None | e # _ \<Rightarrow> Some e)"

definition py_strip :: "string option \<Rightarrow> error + string" where
  \<comment> \<open>the method call \<open>t.strip()\<close>, which raises on \<open>None\<close>\<close>
  "py_strip t = (case t of None \<Rightarrow> Inl AttributeError | Some s \<Rightarrow> Inr (strip s))"

fun strip_all :: "element list \<Rightarrow> error + string list" where
  \<comment> \<open>the generator \<open>kw.text.strip() for kw in kws if kw.text\<close>\<close>
  "strip_all [] = Inr []"
| "strip_all (kw # kws) =
     (if truthy (etext kw)
      then (case py_strip (etext kw) of Inl e \<Rightarrow> Inl e
            | Inr s \<Rightarrow> (case strip_all kws of Inl e \<Rightarrow> Inl e | Inr ss \<Rightarrow> Inr (s # ss)))
      else strip_all kws)"

definition retained_tags :: "string list" where
  "retained_tags = [''head'', ''p'', ''label'', ''list'', ''figure'']"

fun body_parts :: "element list \<Rightarrow> string list" where
  \<comment> \<open>the loop over \<open>body.iter()\<close> that fills \<open>parts\<close>\<close>
  "body_parts [] = []"
| "body_parts (e # es) =
     (let tg = replace (tag e) (''{'' @ NS_tei @ ''}'') [] in
      if tg \<in> set retained_tags
      then (let txt = strip (join '' '' (itertext e)) in
            if txt \<noteq> [] then txt # body_parts es else body_parts es)
      else body_parts es)"

definition nn :: string where
  \<comment> \<open>the separator \<open>"\n\n"\<close>\<close>
  "nn = [CHR 0x0A, CHR 0x0A]"

definition find_title :: "element \<Rightarrow> element option" where
  \<comment> \<open>\<open>root.find(".//tei:titleStmt/tei:title", NS)\<close>\<close>
  "find_title root = find_first (child_step (descendants root (tei ''titleStmt'')) (tei ''title''))"

definition findall_terms :: "element \<Rightarrow> element list" where
  \<comment> \<open>\<open>root.findall(".//tei:keywords/tei:term", NS)\<close>\<close>
  "findall_terms root = child_step (descendants root (tei ''keywords'')) (tei ''term'')"

definition find_abstract :: "element \<Rightarrow> element option" where
  \<comment> \<open>\<open>root.find(".//tei:abstract", NS)\<close>\<close>
  "find_abstract root = find_first (descendants root (tei ''abstract''))"

definition find_body :: "element \<Rightarrow> element option" where
  \<comment> \<open>\<open>root.find(".//tei:body", NS)\<close>\<close>
  "find_body root = find_first (descendants root (tei ''body''))"

definition title_step :: "element \<Rightarrow> string list \<Rightarrow> error + string list" where
  "title_step root content =
     (case find_title root of
        None \<Rightarrow> Inr content
      | Some title \<Rightarrow>
          if truthy (etext title)
          then (case py_strip (etext title) of Inl e \<Rightarrow> Inl e
                | Inr s \<Rightarrow> Inr (content @ [''TITLE: '' @ s]))
          else Inr content)"

definition keywords_step :: "element \<Rightarrow> string list \<Rightarrow> error + string list" where
  "keywords_step root content =
     (let kws = findall_terms root in
      if kws \<noteq> []
      then (case strip_all kws of Inl e \<Rightarrow> Inl e
            | Inr ss \<Rightarrow> Inr (content @ [''KEYWORDS: '' @ join '', '' ss]))
      else Inr content)"

definition abstract_step :: "element \<Rightarrow> string list \<Rightarrow> string list" where
  "abstract_step root content =
     (case find_abstract root of
        None \<Rightarrow> content
      | Some abstract \<Rightarrow> content @ [''ABSTRACT: '' @ strip (join '' '' (itertext abstract))])"

definition body_step :: "element \<Rightarrow> string list \<Rightarrow> string list" where
  "body_step root content =
     (case find_body root of
        None \<Rightarrow> content
      | Some body \<Rightarrow>
          (let parts = body_parts (iter body);
               full = join nn parts;
               clean = strip (split_head full)
           in content @ [clean]))"

definition extract_root :: "element \<Rightarrow> error + string" where
  \<comment> \<open>\<open>extract_clean_text\<close> from \<open>root = tree.getroot()\<close> on: \<open>content\<close> starts empty and
      each of the four blocks appends to it\<close>
  "extract_root root =
     (case title_step root [] of Inl e \<Rightarrow> Inl e
      | Inr content1 \<Rightarrow>
         (case keywords_step root content1 of Inl e \<Rightarrow> Inl e
          | Inr content2 \<Rightarrow>
              Inr (join nn (body_step root (abstract_step root content2)))))"

section \<open>The world the scheduler acts on\<close>

text \<open>
  The input folder lists regular files and directories; the two scratch folders are
  absent (\<open>None\<close>) or hold files; the two result folders always exist (they are made
  with \<open>exist_ok\<close> before the loop). A file the service wrote is kept as the XML parser
  will see it: a tree, or text that does not parse. The trace records, in order, what
  the run prints, probes, submits and sleeps. Outside the model: the construction of the
  client, \<open>gc.collect\<close>, the progress bar, the elapsed time in the closing summary, and
  file-system failures other than a missing path or a directory where a file is
  expected (a removal or a write is taken to succeed).
\<close>

datatype node = File string | Dir

datatype xml_file = Wellformed element | Malformed

datatype msg =
    Found nat | BatchStart nat nat | ServiceDown | Restarting | AttemptError int
  | Retrying | Skipping | ExtractError string | RestartHint | Done nat

datatype event = Print msg | Probe bool | Process nat int bool | Sleep nat

record world =
  input_dir :: "(string \<times> node) list"
  tmp_input :: "(string \<times> string) list option"
  tmp_output :: "(string \<times> xml_file) list option"
  tei_folder :: "(string \<times> xml_file) list"
  txt_folder :: "(string \<times> string) list"
  trace :: "event list"

text \<open>
  What the service does is not decided by the scripts: \<open>alive lote k\<close> is the answer to
  the \<open>k\<close>-th liveness probe of batch \<open>lote\<close>, \<open>process lote attempt\<close> tells whether that
  call of \<open>client.process\<close> returns (\<open>True\<close>) or raises, and the files it leaves in the
  scratch output folder.
\<close>

record env =
  alive :: "nat \<Rightarrow> nat \<Rightarrow> bool"
  process :: "nat \<Rightarrow> int \<Rightarrow> bool \<times> (string \<times> xml_file) list"

text \<open>
  \<open>with_restart\<close> is \<open>False\<close> for \<open>process_pdfs_in_batches\<close> of
  \<open>grobid_batch_processor.py\<close> and \<open>True\<close> for the loop of \<open>process_pdfs_grobid.py\<close>, which
  probes a second time after \<open>restart_grobid\<close> and calls \<open>restart_grobid\<close> every
  \<open>restart_every\<close> batches; that script reads \<open>max_retries\<close> and
  \<open>restart_every_n_batches\<close> without defining them, so they are parameters here too.
\<close>

record config =
  batch_size :: int
  max_retries :: int
  restart_every :: int
  with_restart :: bool

datatype outcome = Normal world | Break world | Raise error world

definition emit :: "event \<Rightarrow> world \<Rightarrow> world" where
  "emit ev w = w\<lparr>trace := trace w @ [ev]\<rparr>"

definition new_events :: "world \<Rightarrow> world \<Rightarrow> event list" where
  \<comment> \<open>what a step from \<open>w\<close> to \<open>w'\<close> added to the trace\<close>
  "new_events w w' = drop (length (trace w)) (trace w')"

section \<open>The extractor on a file\<close>

definition ET_parse :: "string \<Rightarrow> world \<Rightarrow> error + element" where
  \<comment> \<open>\<open>ET.parse(xml_path).getroot()\<close> for a path in the scratch output folder\<close>
  "ET_parse xml_path w =
     (case tmp_output w of
        None \<Rightarrow> Inl FileNotFoundError
      | Some files \<Rightarrow>
          (case map_of files xml_path of
             None \<Rightarrow> Inl FileNotFoundError
           | Some Malformed \<Rightarrow> Inl ParseError
           | Some (Wellformed root) \<Rightarrow> Inr root))"

definition extract_clean_text :: "string \<Rightarrow> world \<Rightarrow> (error + string) \<times> world" where
  "extract_clean_text xml_path w =
     (case ET_parse xml_path w of
        Inl e \<Rightarrow> (Inl e, w)
      | Inr root \<Rightarrow> (extract_root root, w))"

section \<open>The batch scheduler\<close>

function range_from :: "nat \<Rightarrow> nat \<Rightarrow> nat \<Rightarrow> nat list" where
  \<comment> \<open>\<open>range(start, stop, step)\<close> for a positive step\<close>
  "range_from start stop step =
     (if step = 0 \<or> stop \<le> start then [] else start # range_from (start + step) stop step)"
  by pat_completeness auto
termination
  by (relation "measure (\<lambda>(start, stop, step). stop - start)") auto

definition py_range :: "nat \<Rightarrow> int \<Rightarrow> error + nat list" where
  \<comment> \<open>\<open>range(0, n, step)\<close> for \<open>n = len(pdfs)\<close>: a zero step raises, a negative one gives
      nothing\<close>
  "py_range n step =
     (if step = 0 then Inl ValueError
      else if step < 0 then Inr []
      else Inr (range_from 0 n (nat step)))"

definition slice :: "'a list \<Rightarrow> nat \<Rightarrow> nat \<Rightarrow> 'a list" where
  \<comment> \<open>\<open>xs[i:j]\<close> for indices that are not negative\<close>
  "slice xs i j = take (j - i) (drop i xs)"

definition batches :: "string list \<Rightarrow> int \<Rightarrow> error + string list list" where
  \<comment> \<open>the batches the loop header enumerates, in order\<close>
  "batches pdfs B =
     (case py_range (length pdfs) B of
        Inl e \<Rightarrow> Inl e
      | Inr starts \<Rightarrow> Inr (map (\<lambda>start_idx. slice pdfs start_idx (start_idx + nat B)) starts))"

definition list_pdfs :: "world \<Rightarrow> string list" where
  \<comment> \<open>\<open>[f for f in os.listdir(input_dir) if f.lower().endswith('.pdf')]\<close>\<close>
  "list_pdfs w = filter (\<lambda>f. endswith (lower f) ''.pdf'') (map fst (input_dir w))"

definition is_grobid_alive :: "env \<Rightarrow> nat \<Rightarrow> nat \<Rightarrow> world \<Rightarrow> bool \<times> world" where
  "is_grobid_alive E lote k w = (alive E lote k, emit (Probe (alive E lote k)) w)"

definition restart_grobid :: "world \<Rightarrow> world" where
  "restart_grobid w = emit (Sleep 60) (emit (Print Restarting) w)"

definition liveness :: "config \<Rightarrow> env \<Rightarrow> nat \<Rightarrow> world \<Rightarrow> bool \<times> world" where
  \<comment> \<open>the check before a batch; \<open>False\<close> is the \<open>break\<close>\<close>
  "liveness cfg E lote w =
     (case is_grobid_alive E lote 0 w of
        (True, w1) \<Rightarrow> (True, w1)
      | (False, w1) \<Rightarrow>
          if with_restart cfg
          then (case is_grobid_alive E lote 1 (restart_grobid w1) of
                  (True, w2) \<Rightarrow> (True, w2)
                | (False, w2) \<Rightarrow> (False, emit (Print ServiceDown) w2))
          else (False, emit (Print ServiceDown) w1))"

definition makedirs :: "'a list option \<Rightarrow> 'a list option" where
  \<comment> \<open>\<open>os.makedirs(d, exist_ok=True)\<close>\<close>
  "makedirs d = (case d of None \<Rightarrow> Some [] | Some files \<Rightarrow> Some files)"

definition rmtree :: "'a list option \<Rightarrow> 'a list option" where
  \<comment> \<open>\<open>shutil.rmtree(d, ignore_errors=True)\<close>: nothing raised when \<open>d\<close> is absent\<close>
  "rmtree d = None"

fun stage :: "string list \<Rightarrow> world \<Rightarrow> outcome" where
  \<comment> \<open>\<open>for fname in batch: shutil.copy(os.path.join(input_dir, fname), tmp_input)\<close>\<close>
  "stage [] w = Normal w"
| "stage (fname # rest) w =
     (case map_of (input_dir w) fname of
        None \<Rightarrow> Raise FileNotFoundError w
      | Some Dir \<Rightarrow> Raise (IsADirectoryError fname) w
      | Some (File c) \<Rightarrow>
          (case tmp_input w of
             None \<Rightarrow> Raise FileNotFoundError w
           | Some files \<Rightarrow> stage rest (w\<lparr>tmp_input := Some (AList.update fname c files)\<rparr>)))"

fun retry :: "config \<Rightarrow> env \<Rightarrow> nat \<Rightarrow> int list \<Rightarrow> world \<Rightarrow> world" where
  \<comment> \<open>\<open>for attempt in range(1, max_retries + 1)\<close> with its \<open>try\<close>, over the attempts left;
      the second script tests \<open>attempt < max_retries\<close> for the wait, the same split of
      the attempts, and announces the wait\<close>
  "retry cfg E lote [] w = w"
| "retry cfg E lote (attempt # rest) w =
     (case process E lote attempt of
        (ok, files) \<Rightarrow>
          (let w1 = emit (Process lote attempt ok) (w\<lparr>tmp_output := Some files\<rparr>) in
           if ok then w1
           else (let w2 = emit (Print (AttemptError attempt)) w1 in
                 if attempt = max_retries cfg
                 then retry cfg E lote rest (emit (Print Skipping) w2)
                 else retry cfg E lote rest
                        (emit (Sleep 30)
                           (if with_restart cfg then emit (Print Retrying) w2 else w2)))))"

fun harvest :: "string list \<Rightarrow> world \<Rightarrow> outcome" where
  \<comment> \<open>\<open>for fname in os.listdir(tmp_output)\<close>: the copy is outside the \<open>try\<close>, the extraction
      and the write are inside it\<close>
  "harvest [] w = Normal w"
| "harvest (fname # rest) w =
     (if endswith fname ''.tei.xml''
      then (case map_of (case tmp_output w of None \<Rightarrow> [] | Some files \<Rightarrow> files) fname of
              None \<Rightarrow> Raise FileNotFoundError w
            | Some x \<Rightarrow>
                (let w1 = w\<lparr>tei_folder := AList.update fname x (tei_folder w)\<rparr> in
                 case extract_clean_text fname w1 of
                   (Inr txt, w2) \<Rightarrow>
                     harvest rest
                       (w2\<lparr>txt_folder :=
                          AList.update (replace fname ''.tei.xml'' ''.txt'') txt (txt_folder w2)\<rparr>)
                 | (Inl e, w2) \<Rightarrow> harvest rest (emit (Print (ExtractError fname)) w2)))
      else harvest rest w)"

definition listdir :: "(string \<times> 'a) list option \<Rightarrow> error + string list" where
  "listdir d = (case d of None \<Rightarrow> Inl FileNotFoundError | Some files \<Rightarrow> Inr (map fst files))"

definition attempts :: "config \<Rightarrow> int list" where
  \<comment> \<open>\<open>range(1, max_retries + 1)\<close>\<close>
  "attempts cfg = [1..max_retries cfg]"

definition remove_scratch :: "world \<Rightarrow> world" where
  \<comment> \<open>the two \<open>rmtree\<close> calls\<close>
  "remove_scratch w =
     w\<lparr>tmp_input := rmtree (tmp_input w), tmp_output := rmtree (tmp_output w)\<rparr>"

definition cleanup :: "world \<Rightarrow> world" where
  \<comment> \<open>the end of the loop body: the scratch folders go, then the cool-down\<close>
  "cleanup w = emit (Sleep 60) (remove_scratch w)"

definition process_batch :: "config \<Rightarrow> env \<Rightarrow> nat \<Rightarrow> string list \<Rightarrow> world \<Rightarrow> outcome" where
  \<comment> \<open>one pass of the loop body, from the announcement to the cool-down\<close>
  "process_batch cfg E lote batch w =
     (case liveness cfg E lote (emit (Print (BatchStart lote (length batch))) w) of
        (False, w1) \<Rightarrow> Break w1
      | (True, w1) \<Rightarrow>
          (case stage batch (w1\<lparr>tmp_input := makedirs (tmp_input w1),
                                tmp_output := makedirs (tmp_output w1)\<rparr>) of
             Raise e w2 \<Rightarrow> Raise e w2
           | Break w2 \<Rightarrow> Break w2
           | Normal w2 \<Rightarrow>
               (let w3 = retry cfg E lote (attempts cfg) w2 in
                case listdir (tmp_output w3) of
                  Inl e \<Rightarrow> Raise e w3
                | Inr names \<Rightarrow>
                    (case harvest names w3 of
                       Raise e w4 \<Rightarrow> Raise e w4
                     | Break w4 \<Rightarrow> Break w4
                     | Normal w4 \<Rightarrow> Normal (cleanup w4)))))"

definition restart_check :: "config \<Rightarrow> nat \<Rightarrow> world \<Rightarrow> outcome" where
  \<comment> \<open>\<open>if lote_num % restart_every == 0\<close>, which raises for a zero interval\<close>
  "restart_check cfg lote w =
     (if restart_every cfg = 0 then Raise ZeroDivisionError w
      else if int lote mod restart_every cfg = 0
      then Normal (if with_restart cfg then restart_grobid w else emit (Print RestartHint) w)
      else Normal w)"

fun run_batches :: "config \<Rightarrow> env \<Rightarrow> nat \<Rightarrow> string list list \<Rightarrow> world \<Rightarrow> outcome" where
  \<comment> \<open>the \<open>for\<close> loop from index \<open>idx\<close> on: \<open>Normal\<close> when the batches run out, \<open>Break\<close> when
      the liveness check stops the loop\<close>
  "run_batches cfg E idx [] w = Normal w"
| "run_batches cfg E idx (batch # rest) w =
     (case process_batch cfg E (idx + 1) batch w of
        Raise e w1 \<Rightarrow> Raise e w1
      | Break w1 \<Rightarrow> Break w1
      | Normal w1 \<Rightarrow>
          (case restart_check cfg (idx + 1) w1 of
             Raise e w2 \<Rightarrow> Raise e w2
           | Break w2 \<Rightarrow> Break w2
           | Normal w2 \<Rightarrow> run_batches cfg E (idx + 1) rest w2))"

definition process_pdfs_in_batches :: "config \<Rightarrow> env \<Rightarrow> world \<Rightarrow> outcome" where
  \<comment> \<open>the whole run: listing, the loop, the closing summary\<close>
  "process_pdfs_in_batches cfg E w =
     (let pdfs = list_pdfs w;
          w0 = emit (Print (Found (length pdfs))) w
      in case batches pdfs (batch_size cfg) of
           Inl e \<Rightarrow> Raise e w0
         | Inr bs \<Rightarrow>
             (case run_batches cfg E 0 bs w0 of
                Raise e w1 \<Rightarrow> Raise e w1
              | Break w1 \<Rightarrow> Normal (emit (Print (Done (length pdfs))) w1)
              | Normal w1 \<Rightarrow> Normal (emit (Print (Done (length pdfs))) w1)))"

section \<open>Names used in the statements\<close>

text \<open>
  The entry that each block of the extractor appends, written as a list with no member
  or one; the theorems below relate the extractor to them.
\<close>

definition title_entry :: "element \<Rightarrow> string list" where
  "title_entry root =
     (case find_title root of
        None \<Rightarrow> []
      | Some t \<Rightarrow> if truthy (etext t) then [''TITLE: '' @ strip (the (etext t))] else [])"

definition keywords_entry :: "element \<Rightarrow> string list" where
  "keywords_entry root =
     (if findall_terms root = [] then []
      else [''KEYWORDS: '' @
            join '', '' (map (\<lambda>kw. strip (the (etext kw)))
                           (filter (\<lambda>kw. truthy (etext kw)) (findall_terms root)))])"

definition abstract_entry :: "element \<Rightarrow> string list" where
  "abstract_entry root =
     (case find_abstract root of
        None \<Rightarrow> []
      | Some a \<Rightarrow> [''ABSTRACT: '' @ strip (join '' '' (itertext a))])"

definition body_entry :: "element \<Rightarrow> string list" where
  "body_entry root =
     (case find_body root of
        None \<Rightarrow> []
      | Some b \<Rightarrow> [strip (split_head (join nn (body_parts (iter b))))])"

text \<open>
  Small documents at which the theorems are exercised, each placed as the only file of
  the scratch output folder.
\<close>

definition tei_el :: "string \<Rightarrow> string option \<Rightarrow> element list \<Rightarrow> element" where
  "tei_el name x cs = Element (tei name) x None cs"

definition scratch_with :: "xml_file \<Rightarrow> world" where
  "scratch_with f =
     \<lparr>input_dir = [], tmp_input = Some [], tmp_output = Some [(''a.tei.xml'', f)],
      tei_folder = [], txt_folder = [], trace = []\<rparr>"

definition doc_body_only :: element where
  "doc_body_only = tei_el ''TEI'' None [tei_el ''body'' None [tei_el ''p'' (Some ''Intro'') []]]"

definition doc_empty_body :: element where
  "doc_empty_body =
     tei_el ''TEI'' None
       [tei_el ''titleStmt'' None [tei_el ''title'' (Some ''T'') []], tei_el ''body'' None []]"

definition doc_keywords :: element where
  "doc_keywords =
     tei_el ''TEI'' None
       [tei_el ''keywords'' None
          [tei_el ''term'' (Some ''a'') [], tei_el ''term'' (Some '' '') [],
           tei_el ''term'' (Some ''b'') []]]"

definition doc_references :: element where
  "doc_references =
     tei_el ''TEI'' None
       [tei_el ''body'' None
          [tei_el ''p'' (Some ''Intro'') [], tei_el ''p'' (Some ''See the References below'') [],
           tei_el ''p'' (Some ''Later'') []]]"

definition body_references :: element where
  "body_references =
     tei_el ''body'' None
       [tei_el ''p'' (Some ''Intro'') [], tei_el ''p'' (Some ''See the References below'') [],
        tei_el ''p'' (Some ''Later'') []]"

text \<open>
  Names for what the theorems about the scheduler speak of: whether the liveness check
  of a batch lets it through, the events of a check that does not, whether a listed
  name is a regular file, the submissions and the waits recorded in a stretch of trace.
\<close>

definition probe_ok :: "config \<Rightarrow> env \<Rightarrow> nat \<Rightarrow> bool" where
  "probe_ok cfg E lote = (alive E lote 0 \<or> (with_restart cfg \<and> alive E lote 1))"

definition down_events :: "config \<Rightarrow> event list" where
  "down_events cfg =
     (if with_restart cfg
      then [Probe False, Print Restarting, Sleep 60, Probe False, Print ServiceDown]
      else [Probe False, Print ServiceDown])"

definition regular :: "world \<Rightarrow> string \<Rightarrow> bool" where
  "regular w f = (case map_of (input_dir w) f of Some (File c) \<Rightarrow> True | _ \<Rightarrow> False)"


definition backoff_waits :: "event list \<Rightarrow> nat" where
  "backoff_waits evs = count_list evs (Sleep 30)"

definition fail_events :: "config \<Rightarrow> nat \<Rightarrow> int \<Rightarrow> event list" where
  \<comment> \<open>what one failed attempt adds to the trace\<close>
  "fail_events cfg lote attempt =
     [Process lote attempt False, Print (AttemptError attempt)] @
     (if attempt = max_retries cfg then [Print Skipping]
      else (if with_restart cfg then [Print Retrying] else []) @ [Sleep 30])"

definition is_extract_error :: "event \<Rightarrow> bool" where
  "is_extract_error ev = (case ev of Print (ExtractError f) \<Rightarrow> True | _ \<Rightarrow> False)"

definition up_events :: "env \<Rightarrow> nat \<Rightarrow> event list" where
  \<comment> \<open>the events of a liveness check that lets the batch through\<close>
  "up_events E lote =
     (if alive E lote 0 then [Probe True]
      else [Probe False, Print Restarting, Sleep 60, Probe True])"

text \<open>Small worlds, configurations and services at which the theorems are exercised.\<close>

definition world_two :: world where
  "world_two =
     \<lparr>input_dir = [(''a.pdf'', File ''x''), (''b.pdf'', File ''y'')], tmp_input = None,
      tmp_output = None, tei_folder = [], txt_folder = [], trace = []\<rparr>"

definition world_dir :: world where
  "world_dir =
     \<lparr>input_dir = [(''d.pdf'', Dir)], tmp_input = None,
      tmp_output = None, tei_folder = [], txt_folder = [], trace = []\<rparr>"

definition cfg_default :: config where
  "cfg_default = \<lparr>batch_size = 5, max_retries = 3, restart_every = 5, with_restart = False\<rparr>"

definition env_third :: env where
  \<comment> \<open>the service is up; a submission fails twice and returns the third time\<close>
  "env_third = \<lparr>alive = (\<lambda>lote k. True), process = (\<lambda>lote attempt. (attempt = 3, []))\<rparr>"

definition env_never :: env where
  \<comment> \<open>the service is up; every submission fails\<close>
  "env_never = \<lparr>alive = (\<lambda>lote k. True), process = (\<lambda>lote attempt. (False, []))\<rparr>"

definition env_down :: env where
  \<comment> \<open>the service does not answer\<close>
  "env_down = \<lparr>alive = (\<lambda>lote k. False), process = (\<lambda>lote attempt. (False, []))\<rparr>"

fun announced :: "event list \<Rightarrow> (nat \<times> nat) list" where
  \<comment> \<open>the batches announced in a stretch of trace, each with its number and its size\<close>
  "announced [] = []"
| "announced (Print (BatchStart lote n) # evs) = (lote, n) # announced evs"
| "announced (ev # evs) = announced evs"

fun numbered :: "nat \<Rightarrow> string list list \<Rightarrow> (nat \<times> nat) list" where
  \<comment> \<open>the batches of a list numbered from \<open>idx + 1\<close> on, each with its size\<close>
  "numbered idx [] = []"
| "numbered idx (b # bs) = (Suc idx, length b) # numbered (Suc idx) bs"




section \<open>The batches the loop enumerates\<close>

declare range_from.simps [simp del]



lemma range_from_concat:
  "0 < step \<Longrightarrow>
   concat (map (\<lambda>s. slice xs s (s + step)) (range_from start (length xs) step)) = drop start xs"
proof (induction start "length xs" step rule: range_from.induct)
  case (1 start step)
  show ?case
  proof (cases "length xs \<le> start")
    case True
    then show ?thesis by (simp add: range_from.simps [of start "length xs" step])
  next
    case False
    have "take step (drop start xs) @ drop (start + step) xs = drop start xs"
      by (metis add.commute append_take_drop_id drop_drop)
    with "1.hyps" "1.prems" False show ?thesis
      by (simp add: range_from.simps [of start "length xs" step] slice_def)
  qed
qed


lemma batches_pos:
  assumes "1 \<le> B"
  shows "batches pdfs B = Inr (map (\<lambda>s. slice pdfs s (s + nat B)) (range_from 0 (length pdfs) (nat B)))"
  using assms by (simp add: batches_def py_range_def)

section \<open>The extractor\<close>

lemma py_strip_truthy: "truthy t \<Longrightarrow> py_strip t = Inr (strip (the t))"
  by (cases t) (simp_all add: truthy_def py_strip_def)

lemma strip_all_total:
  "strip_all kws = Inr (map (\<lambda>kw. strip (the (etext kw))) (filter (\<lambda>kw. truthy (etext kw)) kws))"
  by (induction kws) (simp_all add: py_strip_truthy)

lemma title_step_eq: "title_step root content = Inr (content @ title_entry root)"
  by (simp add: title_step_def title_entry_def py_strip_truthy split: option.splits)

lemma keywords_step_eq: "keywords_step root content = Inr (content @ keywords_entry root)"
  by (simp add: keywords_step_def keywords_entry_def strip_all_total Let_def)

lemma abstract_step_eq: "abstract_step root content = content @ abstract_entry root"
  by (simp add: abstract_step_def abstract_entry_def split: option.splits)

lemma body_step_eq: "body_step root content = content @ body_entry root"
  by (simp add: body_step_def body_entry_def Let_def split: option.splits)

lemma extract_root_eq:
  "extract_root root =
     Inr (join nn (title_entry root @ keywords_entry root @ abstract_entry root @ body_entry root))"
  by (simp add: extract_root_def title_step_eq keywords_step_eq abstract_step_eq body_step_eq)

lemma extract_clean_text_parsed:
  "ET_parse p w = Inr root \<Longrightarrow> extract_clean_text p w = (extract_root root, w)"
  by (simp add: extract_clean_text_def)

lemma extract_clean_text_failed:
  "ET_parse p w = Inl e \<Longrightarrow> extract_clean_text p w = (Inl e, w)"
  by (simp add: extract_clean_text_def)

lemma join_Cons: "join sep (x # xs) = x @ (if xs = [] then [] else sep @ join sep xs)"
  by (cases xs) simp_all

lemma join_split:
  "join sep (pre @ (u @ t) # post) =
     join sep (pre @ [u]) @ t @ (if post = [] then [] else sep @ join sep post)"
  by (induction pre) (simp_all add: join_Cons)

lemma split_head_prefix: "prefix (split_head s) s"
  by (induction s) simp_all

lemma split_head_before: "marker_at y \<Longrightarrow> prefix (split_head (x @ y)) x"
proof (induction x)
  case Nil
  then show ?case by (cases y) simp_all
next
  case (Cons a x)
  then show ?case by simp
qed

lemma marker_at_references:
  assumes "lower r = ''references''"
  shows "marker_at (r @ z)"
proof -
  from assms have "length (lower r) = 10" by simp
  then have "length r = 10" by (simp add: lower_def)
  then have "lower (take (length ''references'') (r @ z)) = ''references''"
    using assms by simp
  then show ?thesis unfolding marker_at_def markers_def by (intro bexI [of _ "''references''"]) simp_all
qed

subsection \<open>Errors of the extractor\<close>

text \<open>
  Claim C6. The extractor raises exactly when the file cannot be parsed (it is missing or
  is not well-formed markup); on every parsed document it returns a string, the guards
  on \<open>title.text\<close> and \<open>kw.text\<close> keeping \<open>strip\<close> away from \<open>None\<close>; with no title, no
  keyword term and no abstract the result is the body text alone.
\<close>

theorem C6_extract_raises_iff_unparsed:
  "((\<exists>e. fst (extract_clean_text xml_path w) = Inl e) \<longleftrightarrow> (\<exists>e. ET_parse xml_path w = Inl e))
   \<and> (\<forall>root. ET_parse xml_path w = Inr root \<longrightarrow>
        (\<exists>s. fst (extract_clean_text xml_path w) = Inr s) \<and>
        (find_title root = None \<and> findall_terms root = [] \<and> find_abstract root = None \<longrightarrow>
           fst (extract_clean_text xml_path w) = Inr (join nn (body_entry root))))"
proof (cases "ET_parse xml_path w")
  case (Inl e)
  then show ?thesis by (simp add: extract_clean_text_failed)
next
  case (Inr root)
  have "title_entry root = [] \<and> keywords_entry root = [] \<and> abstract_entry root = []"
    if "find_title root = None \<and> findall_terms root = [] \<and> find_abstract root = None"
    using that by (simp add: title_entry_def keywords_entry_def abstract_entry_def)
  with Inr show ?thesis
    by (auto simp add: extract_clean_text_parsed extract_root_eq)
qed

text \<open>
  A document that has only a body, in the scratch folder, at which the result is the
  body text.
\<close>

theorem C6_extract_raises_iff_unparsed_witness:
  "ET_parse ''a.tei.xml'' (scratch_with (Wellformed doc_body_only)) = Inr doc_body_only \<and>
   find_title doc_body_only = None \<and> findall_terms doc_body_only = [] \<and>
   find_abstract doc_body_only = None \<and>
   fst (extract_clean_text ''a.tei.xml'' (scratch_with (Wellformed doc_body_only))) = Inr ''Intro''"
proof -
  have p: "ET_parse ''a.tei.xml'' (scratch_with (Wellformed doc_body_only)) = Inr doc_body_only"
    by (simp add: ET_parse_def scratch_with_def)
  have a: "find_title doc_body_only = None \<and> findall_terms doc_body_only = [] \<and>
           find_abstract doc_body_only = None"
    by code_simp
  have b: "join nn (body_entry doc_body_only) = ''Intro''" by code_simp
  from C6_extract_raises_iff_unparsed [of "''a.tei.xml''" "scratch_with (Wellformed doc_body_only)"]
  have "fst (extract_clean_text ''a.tei.xml'' (scratch_with (Wellformed doc_body_only))) =
          Inr (join nn (body_entry doc_body_only))"
    using p a by blast
  with p a b show ?thesis by simp
qed

lemma extract_clean_text_world: "snd (extract_clean_text p w) = w"
  by (simp add: extract_clean_text_def split: sum.splits)

subsection \<open>The keywords line\<close>

text \<open>
  Claim C8 says that no empty item appears in the comma-joined list. The filter
  \<open>if kw.text\<close> is applied before \<open>strip\<close>, so a term whose text is only white space
  passes it and is joined as an empty item: the terms \<open>a\<close>, one blank and \<open>b\<close> give
  \<open>KEYWORDS: a, , b\<close>. (The body loop strips first and tests afterwards.)
\<close>

theorem C8_whitespace_term_kept:
  "map etext (findall_terms doc_keywords) = [Some ''a'', Some '' '', Some ''b''] \<and>
   fst (extract_clean_text ''a.tei.xml'' (scratch_with (Wellformed doc_keywords))) =
     Inr ''KEYWORDS: a, , b''"
  by code_simp

subsection \<open>The four components of the artifact\<close>

text \<open>
  Claim C9 as stated fails: a body element that is found and yields no text is still
  appended, as an empty entry, so a title followed by an empty body gives the title line
  and a trailing separator.
\<close>

theorem C9_empty_body_entry:
  "find_body doc_empty_body = Some (tei_el ''body'' None []) \<and>
   fst (extract_clean_text ''a.tei.xml'' (scratch_with (Wellformed doc_empty_body))) =
     Inr (join nn [''TITLE: T'', []]) \<and>
   join nn [''TITLE: T'', []] \<noteq> join nn [''TITLE: T'']"
  by code_simp

text \<open>
  Claim C9, amended. The artifact is the join with blank lines of the TITLE entry, the
  KEYWORDS entry, the ABSTRACT entry and the cleaned BODY entry, in this order; each is
  there exactly when its element was found (the title also needs a non-empty text),
  whether or not the text it carries is empty.
\<close>

theorem C9_artifact_entries:
  assumes "ET_parse xml_path w = Inr root"
  shows "fst (extract_clean_text xml_path w) =
           Inr (join nn (title_entry root @ keywords_entry root @ abstract_entry root @
                         body_entry root))
    \<and> length (title_entry root) \<le> 1 \<and> length (keywords_entry root) \<le> 1
    \<and> length (abstract_entry root) \<le> 1 \<and> length (body_entry root) \<le> 1
    \<and> (title_entry root \<noteq> [] \<longleftrightarrow> (\<exists>t. find_title root = Some t \<and> truthy (etext t)))
    \<and> (keywords_entry root \<noteq> [] \<longleftrightarrow> findall_terms root \<noteq> [])
    \<and> (abstract_entry root \<noteq> [] \<longleftrightarrow> find_abstract root \<noteq> None)
    \<and> (body_entry root \<noteq> [] \<longleftrightarrow> find_body root \<noteq> None)"
proof -
  have "fst (extract_clean_text xml_path w) =
           Inr (join nn (title_entry root @ keywords_entry root @ abstract_entry root @
                         body_entry root))"
    using assms by (simp add: extract_clean_text_parsed extract_root_eq)
  moreover have "length (title_entry root) \<le> 1 \<and>
      (title_entry root \<noteq> [] \<longleftrightarrow> (\<exists>t. find_title root = Some t \<and> truthy (etext t)))"
    by (simp add: title_entry_def split: option.splits)
  moreover have "length (keywords_entry root) \<le> 1 \<and>
      (keywords_entry root \<noteq> [] \<longleftrightarrow> findall_terms root \<noteq> [])"
    by (simp add: keywords_entry_def)
  moreover have "length (abstract_entry root) \<le> 1 \<and>
      (abstract_entry root \<noteq> [] \<longleftrightarrow> find_abstract root \<noteq> None)"
    by (simp add: abstract_entry_def split: option.splits)
  moreover have "length (body_entry root) \<le> 1 \<and>
      (body_entry root \<noteq> [] \<longleftrightarrow> find_body root \<noteq> None)"
    by (simp add: body_entry_def split: option.splits)
  ultimately show ?thesis by blast
qed

text \<open>
  The title with an empty body again: two entries, the second one empty.
\<close>

theorem C9_artifact_entries_witness:
  "ET_parse ''a.tei.xml'' (scratch_with (Wellformed doc_empty_body)) = Inr doc_empty_body \<and>
   fst (extract_clean_text ''a.tei.xml'' (scratch_with (Wellformed doc_empty_body))) =
     Inr (join nn (title_entry doc_empty_body @ keywords_entry doc_empty_body @
                   abstract_entry doc_empty_body @ body_entry doc_empty_body)) \<and>
   title_entry doc_empty_body = [''TITLE: T''] \<and> body_entry doc_empty_body = [[]]"
proof -
  have p: "ET_parse ''a.tei.xml'' (scratch_with (Wellformed doc_empty_body)) = Inr doc_empty_body"
    by (simp add: ET_parse_def scratch_with_def)
  have e: "title_entry doc_empty_body = [''TITLE: T''] \<and> body_entry doc_empty_body = [[]]"
    by code_simp
  from C9_artifact_entries [OF p] p e show ?thesis by blast
qed

subsection \<open>Truncation at the marker\<close>

text \<open>
  Claim C2 as stated fails: the cut is made at the marker, not at the start of the block
  that holds it, so the text of that block before the marker stays in the artifact.
\<close>

theorem C2_text_before_marker_kept:
  "find_body doc_references = Some body_references \<and>
   body_parts (iter body_references) = [''Intro'', ''See the References below'', ''Later''] \<and>
   fst (extract_clean_text ''a.tei.xml'' (scratch_with (Wellformed doc_references))) =
     Inr (''Intro'' @ nn @ ''See the'') \<and>
   prefix ''See the'' ''See the References below''"
  by code_simp

lemma split_head_no_marker: "k < length (split_head s) \<Longrightarrow> \<not> marker_at (drop k s)"
proof (induction s arbitrary: k)
  case Nil
  then show ?case by simp
next
  case (Cons c cs)
  show ?case
  proof (cases "marker_at (c # cs)")
    case True
    with Cons.prems show ?thesis by simp
  next
    case False
    show ?thesis
    proof (cases k)
      case 0
      with False show ?thesis by simp
    next
      case (Suc j)
      with Cons.prems False have "j < length (split_head cs)" by simp
      from Cons.IH [OF this] Suc show ?thesis by simp
    qed
  qed
qed

lemma split_head_marker: "split_head s \<noteq> s \<Longrightarrow> marker_at (drop (length (split_head s)) s)"
  by (induction s) (auto split: if_splits)

lemma split_head_exact:
  "(\<forall>k < length x. \<not> marker_at (drop k (x @ y))) \<Longrightarrow> marker_at y \<Longrightarrow> split_head (x @ y) = x"
proof (induction x)
  case Nil
  then show ?case by (cases y) simp_all
next
  case (Cons a x)
  from Cons.prems(1) have first: "\<not> marker_at ((a # x) @ y)" by (auto dest: spec [of _ 0])
  have "\<forall>k < length x. \<not> marker_at (drop k (x @ y))"
  proof (intro allI impI)
    fix k assume "k < length x"
    then have "Suc k < length (a # x)" by simp
    with Cons.prems(1) have "\<not> marker_at (drop (Suc k) ((a # x) @ y))" by blast
    then show "\<not> marker_at (drop k (x @ y))" by simp
  qed
  from Cons.IH [OF this Cons.prems(2)] first show ?case by simp
qed

text \<open>
  Claim C2, amended. When a retained body block contains \<open>References\<close> in any case, the
  body entry of the artifact is the stripped text of the joined blocks that precedes the
  first match of a marker: the cut lies at a match, no marker matches before it, and it
  lies no later than the \<open>References\<close> of that block, so nothing from there on, and
  nothing of a later block, is in the body entry. When no marker matches earlier, the
  body entry is exactly the blocks before, joined with what that block has before the
  marker, stripped. The entries of title, keywords and abstract are not cut.
\<close>

theorem C2_truncated_at_marker:
  assumes "ET_parse xml_path w = Inr root"
    and "find_body root = Some body"
    and "body_parts (iter body) = pre @ b # post"
    and "b = u @ r @ v"
    and "lower r = ''references''"
  shows "\<exists>cut. fst (extract_clean_text xml_path w) =
             Inr (join nn (title_entry root @ keywords_entry root @ abstract_entry root @
                           [strip cut]))
           \<and> prefix cut (join nn (pre @ [u]))
           \<and> prefix cut (join nn (pre @ b # post))
           \<and> marker_at (drop (length cut) (join nn (pre @ b # post)))
           \<and> (\<forall>k < length cut. \<not> marker_at (drop k (join nn (pre @ b # post))))
           \<and> ((\<forall>k < length (join nn (pre @ [u])).
                  \<not> marker_at (drop k (join nn (pre @ b # post)))) \<longrightarrow>
                cut = join nn (pre @ [u]))"
proof -
  define full where "full = join nn (body_parts (iter body))"
  define rest where "rest = v @ (if post = [] then [] else nn @ join nn post)"
  define J where "J = join nn (pre @ [u])"
  have f0: "full = join nn (pre @ b # post)" using assms(3) by (simp add: full_def)
  then have "full = join nn (pre @ (u @ (r @ v)) # post)" using assms(4) by simp
  then have full: "full = J @ (r @ rest)"
    by (simp add: join_split rest_def J_def)
  have m: "marker_at (r @ rest)" using assms(5) by (rule marker_at_references)
  have p1: "prefix (split_head full) J"
    unfolding full using m by (rule split_head_before)
  have "length (lower r) = 10" using assms(5) by simp
  then have "length r = 10" by (simp add: lower_def)
  then have "length J < length full" by (simp add: full)
  moreover have "length (split_head full) \<le> length J" using p1 by (rule prefix_length_le)
  ultimately have "split_head full \<noteq> full" by auto
  then have p3: "marker_at (drop (length (split_head full)) full)" by (rule split_head_marker)
  have p4: "\<forall>k < length (split_head full). \<not> marker_at (drop k full)"
    using split_head_no_marker by blast
  have p5: "split_head full = J" if "\<forall>k < length J. \<not> marker_at (drop k full)"
    using split_head_exact [of J "r @ rest"] that m by (simp add: full)
  have "body_entry root = [strip (split_head full)]"
    using assms(2) by (simp add: body_entry_def full_def)
  then have p0: "fst (extract_clean_text xml_path w) =
             Inr (join nn (title_entry root @ keywords_entry root @ abstract_entry root @
                           [strip (split_head full)]))"
    using assms(1) by (simp add: extract_clean_text_parsed extract_root_eq)
  show ?thesis
    unfolding f0 [symmetric] J_def [symmetric]
    using p0 p1 split_head_prefix [of full] p3 p4 p5
    by (intro exI [of _ "split_head full"] conjI impI) assumption+
qed

text \<open>
  The three paragraphs above, the second split around its marker, the first match in
  them.
\<close>

theorem C2_truncated_at_marker_witness:
  "ET_parse ''a.tei.xml'' (scratch_with (Wellformed doc_references)) = Inr doc_references \<and>
   find_body doc_references = Some body_references \<and>
   body_parts (iter body_references) = [''Intro''] @ (''See the '' @ ''References'' @ '' below'') # [''Later''] \<and>
   lower ''References'' = ''references'' \<and>
   (\<exists>cut. fst (extract_clean_text ''a.tei.xml'' (scratch_with (Wellformed doc_references))) =
             Inr (join nn (title_entry doc_references @ keywords_entry doc_references @
                           abstract_entry doc_references @ [strip cut]))
           \<and> cut = join nn ([''Intro''] @ [''See the ''])
           \<and> marker_at (drop (length cut)
                (join nn ([''Intro''] @ (''See the '' @ ''References'' @ '' below'') # [''Later'']))))"
proof -
  have p: "ET_parse ''a.tei.xml'' (scratch_with (Wellformed doc_references)) = Inr doc_references"
    by (simp add: ET_parse_def scratch_with_def)
  have f: "find_body doc_references = Some body_references" by code_simp
  have bp: "body_parts (iter body_references) =
              [''Intro''] @ (''See the '' @ ''References'' @ '' below'') # [''Later'']"
    by code_simp
  have l: "lower ''References'' = ''references''" by code_simp
  have none: "\<forall>k < length (join nn ([''Intro''] @ [''See the ''])).
      \<not> marker_at (drop k (join nn ([''Intro''] @ (''See the '' @ ''References'' @ '' below'') # [''Later''])))"
    by code_simp
  from C2_truncated_at_marker [OF p f bp refl l] none
  have "\<exists>cut. fst (extract_clean_text ''a.tei.xml'' (scratch_with (Wellformed doc_references))) =
             Inr (join nn (title_entry doc_references @ keywords_entry doc_references @
                           abstract_entry doc_references @ [strip cut]))
           \<and> cut = join nn ([''Intro''] @ [''See the ''])
           \<and> marker_at (drop (length cut)
                (join nn ([''Intro''] @ (''See the '' @ ''References'' @ '' below'') # [''Later''])))"
    by blast
  with p f bp l show ?thesis by blast
qed

section \<open>The scheduler\<close>

lemma trace_emit [simp]: "trace (emit ev w) = trace w @ [ev]"
  and tmp_input_emit [simp]: "tmp_input (emit ev w) = tmp_input w"
  and tmp_output_emit [simp]: "tmp_output (emit ev w) = tmp_output w"
  and input_dir_emit [simp]: "input_dir (emit ev w) = input_dir w"
  by (simp_all add: emit_def)

lemma liveness_eq:
  "liveness cfg E lote w =
     (probe_ok cfg E lote,
      w\<lparr>trace := trace w @
          (if probe_ok cfg E lote
           then (if alive E lote 0 then [Probe True]
                 else [Probe False, Print Restarting, Sleep 60, Probe True])
           else down_events cfg)\<rparr>)"
  by (simp add: liveness_def is_grobid_alive_def restart_grobid_def probe_ok_def down_events_def
      emit_def split: bool.splits)

lemma regular_update [simp]: "regular (w\<lparr>tmp_input := x\<rparr>) f = regular w f"
  "regular (w\<lparr>tmp_output := y\<rparr>) f = regular w f"
  "regular (w\<lparr>trace := t\<rparr>) f = regular w f"
  by (simp_all add: regular_def)

lemma stage_regular:
  "\<forall>f \<in> set batch. regular w f \<Longrightarrow> tmp_input w \<noteq> None \<Longrightarrow>
   \<exists>w'. stage batch w = Normal w' \<and> trace w' = trace w \<and> tmp_output w' = tmp_output w
        \<and> input_dir w' = input_dir w \<and> tmp_input w' \<noteq> None
        \<and> tei_folder w' = tei_folder w \<and> txt_folder w' = txt_folder w"
proof (induction batch arbitrary: w)
  case Nil
  then show ?case by simp
next
  case (Cons f batch)
  from Cons.prems obtain c where c: "map_of (input_dir w) f = Some (File c)"
    by (auto simp: regular_def split: option.splits node.splits)
  from Cons.prems obtain files where fs: "tmp_input w = Some files" by auto
  let ?w = "w\<lparr>tmp_input := Some (AList.update f c files)\<rparr>"
  have "\<forall>g \<in> set batch. regular ?w g" using Cons.prems by simp
  moreover have "tmp_input ?w \<noteq> None" by simp
  ultimately obtain w' where "stage batch ?w = Normal w'" "trace w' = trace ?w"
    "tmp_output w' = tmp_output ?w" "input_dir w' = input_dir ?w" "tmp_input w' \<noteq> None"
    "tei_folder w' = tei_folder ?w" "txt_folder w' = txt_folder ?w"
    using Cons.IH [of ?w] by blast
  then show ?case using c fs by simp
qed

lemma retry_frame:
  "input_dir (retry cfg E lote as w) = input_dir w \<and>
   tmp_input (retry cfg E lote as w) = tmp_input w \<and>
   tei_folder (retry cfg E lote as w) = tei_folder w \<and>
   txt_folder (retry cfg E lote as w) = txt_folder w \<and>
   (tmp_output w \<noteq> None \<longrightarrow> tmp_output (retry cfg E lote as w) \<noteq> None)"
proof (induction as arbitrary: w)
  case Nil
  show ?case by simp
next
  case (Cons a as)
  obtain ok files where p: "process E lote a = (ok, files)" by (cases "process E lote a")
  show ?case using p Cons.IH
    by (simp add: Let_def emit_def)
qed

lemma retry_all_fail:
  "\<forall>a \<in> set as. \<not> fst (process E lote a) \<Longrightarrow>
   trace (retry cfg E lote as w) = trace w @ concat (map (fail_events cfg lote) as)"
proof (induction as arbitrary: w)
  case Nil
  show ?case by simp
next
  case (Cons a as)
  obtain ok files where p: "process E lote a = (ok, files)" by (cases "process E lote a")
  with Cons.prems have nok: "\<not> ok" by simp
  from Cons.prems have rest: "\<forall>a \<in> set as. \<not> fst (process E lote a)" by simp
  show ?case using p nok Cons.IH [OF rest]
    by (simp add: Let_def fail_events_def)
qed


lemma harvest_listed:
  "tmp_output w = Some files \<Longrightarrow> set names \<subseteq> fst ` set files \<Longrightarrow>
   \<exists>w' hv. harvest names w = Normal w' \<and> trace w' = trace w @ hv \<and>
     list_all is_extract_error hv \<and> tmp_input w' = tmp_input w \<and>
     tmp_output w' = tmp_output w \<and> input_dir w' = input_dir w"
proof (induction names arbitrary: w)
  case Nil
  then show ?case by simp
next
  case (Cons fname names)
  from Cons.prems have rest: "set names \<subseteq> fst ` set files" by simp
  show ?case
  proof (cases "endswith fname ''.tei.xml''")
    case False
    with Cons.IH [OF Cons.prems(1) rest] show ?thesis by simp
  next
    case True
    from Cons.prems have "fname \<in> fst ` set files" by simp
    then obtain x where x: "map_of files fname = Some x"
      by (cases "map_of files fname") (simp_all add: map_of_eq_None_iff)
    define w1 where "w1 = w\<lparr>tei_folder := AList.update fname x (tei_folder w)\<rparr>"
    obtain r where r: "extract_clean_text fname w1 = (r, w1)"
      using extract_clean_text_world [of fname w1] by (cases "extract_clean_text fname w1") simp
    have o1: "tmp_output w1 = Some files" using Cons.prems(1) by (simp add: w1_def)
    show ?thesis
    proof (cases r)
      case (Inl e)
      define w2 where "w2 = emit (Print (ExtractError fname)) w1"
      have "tmp_output w2 = Some files" using o1 by (simp add: w2_def)
      from Cons.IH [OF this rest] obtain w' hv where
        h: "harvest names w2 = Normal w'" "trace w' = trace w2 @ hv" "list_all is_extract_error hv"
           "tmp_input w' = tmp_input w2" "tmp_output w' = tmp_output w2" "input_dir w' = input_dir w2"
        by blast
      have "harvest (fname # names) w = Normal w'"
        using True x r Inl h(1) Cons.prems(1) by (simp add: w1_def w2_def Let_def)
      moreover have "trace w' = trace w @ (Print (ExtractError fname) # hv)"
        using h(2) by (simp add: w2_def w1_def)
      moreover have "list_all is_extract_error (Print (ExtractError fname) # hv)"
        using h(3) by (simp add: is_extract_error_def)
      moreover have "tmp_input w' = tmp_input w \<and> tmp_output w' = tmp_output w \<and> input_dir w' = input_dir w"
        using h(4,5,6) by (simp add: w2_def w1_def)
      ultimately show ?thesis by blast
    next
      case (Inr res)
      define w2 where "w2 = w1\<lparr>txt_folder :=
          AList.update (replace fname ''.tei.xml'' ''.txt'') res (txt_folder w1)\<rparr>"
      have "tmp_output w2 = Some files" using o1 by (simp add: w2_def)
      from Cons.IH [OF this rest] obtain w' hv where
        h: "harvest names w2 = Normal w'" "trace w' = trace w2 @ hv" "list_all is_extract_error hv"
           "tmp_input w' = tmp_input w2" "tmp_output w' = tmp_output w2" "input_dir w' = input_dir w2"
        by blast
      have "harvest (fname # names) w = Normal w'"
        using True x r Inr h(1) Cons.prems(1) by (simp add: w1_def w2_def Let_def)
      moreover have "trace w' = trace w @ hv"
        using h(2) by (simp add: w2_def w1_def)
      moreover have "tmp_input w' = tmp_input w \<and> tmp_output w' = tmp_output w \<and> input_dir w' = input_dir w"
        using h(4,5,6) by (simp add: w2_def w1_def)
      ultimately show ?thesis using h(3) by blast
    qed
  qed
qed

lemma liveness_up:
  "probe_ok cfg E lote \<Longrightarrow>
   liveness cfg E lote w = (True, w\<lparr>trace := trace w @ up_events E lote\<rparr>)"
  by (simp add: liveness_eq up_events_def)

lemma liveness_down:
  "\<not> probe_ok cfg E lote \<Longrightarrow>
   liveness cfg E lote w = (False, w\<lparr>trace := trace w @ down_events cfg\<rparr>)"
  by (simp add: liveness_eq)

lemma process_batch_ok:
  assumes up: "probe_ok cfg E lote" and reg: "\<forall>f \<in> set batch. regular w f"
  shows "\<exists>w2 w' hv. process_batch cfg E lote batch w = Normal w'
     \<and> trace w2 = trace w @ Print (BatchStart lote (length batch)) # up_events E lote
     \<and> trace w' = trace (retry cfg E lote (attempts cfg) w2) @ hv @ [Sleep 60]
     \<and> list_all is_extract_error hv \<and> tmp_input w' = None \<and> tmp_output w' = None
     \<and> input_dir w' = input_dir w"
proof -
  define w1 where
    "w1 = (emit (Print (BatchStart lote (length batch))) w)\<lparr>trace :=
             trace (emit (Print (BatchStart lote (length batch))) w) @ up_events E lote\<rparr>"
  define w1' where
    "w1' = w1\<lparr>tmp_input := makedirs (tmp_input w1), tmp_output := makedirs (tmp_output w1)\<rparr>"
  have live: "liveness cfg E lote (emit (Print (BatchStart lote (length batch))) w) = (True, w1)"
    using liveness_up [OF up] by (simp add: w1_def)
  have "\<forall>f \<in> set batch. regular w1' f"
    using reg by (simp add: w1'_def w1_def regular_def emit_def)
  moreover have "tmp_input w1' \<noteq> None"
    by (simp add: w1'_def makedirs_def split: option.splits)
  ultimately obtain w2 where w2: "stage batch w1' = Normal w2" "trace w2 = trace w1'"
    "tmp_output w2 = tmp_output w1'" "input_dir w2 = input_dir w1'"
    using stage_regular [of batch w1'] by blast
  have tr2: "trace w2 = trace w @ Print (BatchStart lote (length batch)) # up_events E lote"
    using w2(2) by (simp add: w1'_def w1_def)
  define w3 where "w3 = retry cfg E lote (attempts cfg) w2"
  have "tmp_output w2 \<noteq> None"
    using w2(3) by (simp add: w1'_def makedirs_def split: option.splits)
  then have "tmp_output w3 \<noteq> None"
    using retry_frame [of cfg E lote "attempts cfg" w2] by (simp add: w3_def)
  then obtain files where files: "tmp_output w3 = Some files" by auto
  have ls: "listdir (tmp_output w3) = Inr (map fst files)"
    using files by (simp add: listdir_def)
  obtain w4 hv where w4: "harvest (map fst files) w3 = Normal w4" "trace w4 = trace w3 @ hv"
    "list_all is_extract_error hv" "input_dir w4 = input_dir w3"
    using harvest_listed [OF files, of "map fst files"] by auto
  have dir: "input_dir (cleanup w4) = input_dir w"
    using w4(4) w2(4) retry_frame [of cfg E lote "attempts cfg" w2]
    by (simp add: w3_def w1'_def w1_def cleanup_def remove_scratch_def emit_def)
  have "process_batch cfg E lote batch w = Normal (cleanup w4)"
    using live w2(1) ls w4(1)
    by (simp add: process_batch_def w1'_def [symmetric] w3_def [symmetric] Let_def)
  moreover have "trace (cleanup w4) = trace w3 @ hv @ [Sleep 60]"
    using w4(2) by (simp add: cleanup_def remove_scratch_def emit_def)
  moreover have "tmp_input (cleanup w4) = None \<and> tmp_output (cleanup w4) = None"
    by (simp add: cleanup_def remove_scratch_def emit_def rmtree_def)
  ultimately show ?thesis using tr2 w4(3) dir unfolding w3_def by blast
qed

lemma new_events_append: "trace w' = trace w @ evs \<Longrightarrow> new_events w w' = evs"
  by (simp add: new_events_def)

lemma batch_all_fail:
  assumes up: "probe_ok cfg E lote" and reg: "\<forall>f \<in> set batch. regular w f"
    and fail: "\<forall>a \<in> set (attempts cfg). \<not> fst (process E lote a)"
  shows "\<exists>w' hv. process_batch cfg E lote batch w = Normal w'
     \<and> new_events w w' =
         Print (BatchStart lote (length batch)) # up_events E lote @
         concat (map (fail_events cfg lote) (attempts cfg)) @ hv @ [Sleep 60]
     \<and> list_all is_extract_error hv \<and> tmp_input w' = None \<and> tmp_output w' = None"
proof -
  from process_batch_ok [OF up reg] obtain w2 w' hv where
    h: "process_batch cfg E lote batch w = Normal w'"
       "trace w2 = trace w @ Print (BatchStart lote (length batch)) # up_events E lote"
       "trace w' = trace (retry cfg E lote (attempts cfg) w2) @ hv @ [Sleep 60]"
       "list_all is_extract_error hv" "tmp_input w' = None" "tmp_output w' = None"
    by blast
  have "trace w' = trace w @ (Print (BatchStart lote (length batch)) # up_events E lote @
         concat (map (fail_events cfg lote) (attempts cfg)) @ hv @ [Sleep 60])"
    using h(2,3) retry_all_fail [OF fail, of cfg w2] by simp
  from new_events_append [OF this] h(1,4,5,6) show ?thesis by blast
qed






lemma waits_append: "backoff_waits (xs @ ys) = backoff_waits xs + backoff_waits ys"
  by (simp add: backoff_waits_def)

lemma waits_extract_errors: "list_all is_extract_error hv \<Longrightarrow> backoff_waits hv = 0"
  by (induction hv) (auto simp add: backoff_waits_def is_extract_error_def)

lemma waits_up: "backoff_waits (up_events E lote) = 0"
  by (simp add: up_events_def backoff_waits_def)

lemma waits_fail:
  "backoff_waits (concat (map (fail_events cfg lote) as)) =
     length (filter (\<lambda>a. a \<noteq> max_retries cfg) as)"
  by (induction as) (simp_all add: waits_append fail_events_def backoff_waits_def)





lemma attempts_last:
  "1 \<le> max_retries cfg \<Longrightarrow> attempts cfg = [1..max_retries cfg - 1] @ [max_retries cfg]"
  by (simp add: attempts_def upto_rec2)

lemma attempts_waits:
  assumes "1 \<le> max_retries cfg"
  shows "int (length (filter (\<lambda>a. a \<noteq> max_retries cfg) (attempts cfg))) = max_retries cfg - 1"
proof -
  have "filter (\<lambda>a. a \<noteq> max_retries cfg) [1..max_retries cfg - 1] = [1..max_retries cfg - 1]"
    by (rule filter_True) simp
  then show ?thesis using assms by (simp add: attempts_last)
qed

lemma process_batch_down:
  "\<not> probe_ok cfg E lote \<Longrightarrow>
   process_batch cfg E lote batch w =
     Break (w\<lparr>trace := trace w @ Print (BatchStart lote (length batch)) # down_events cfg\<rparr>)"
  by (simp add: process_batch_def liveness_down emit_def)

lemma process_batch_Normal:
  "process_batch cfg E lote batch w = Normal w' \<Longrightarrow> tmp_input w' = None \<and> tmp_output w' = None"
  by (auto simp add: process_batch_def Let_def cleanup_def remove_scratch_def rmtree_def emit_def
      split: prod.splits bool.splits outcome.splits sum.splits)

lemma run_batches_append:
  "run_batches cfg E idx (pre @ rest) w =
     (case run_batches cfg E idx pre w of
        Normal w1 \<Rightarrow> run_batches cfg E (idx + length pre) rest w1
      | Break w1 \<Rightarrow> Break w1
      | Raise e w1 \<Rightarrow> Raise e w1)"
  by (induction pre arbitrary: idx w) (simp_all split: outcome.splits)

subsection \<open>Retries\<close>

lemma waits_Nil: "backoff_waits [] = 0"
  by (simp add: backoff_waits_def)

lemma waits_Cons:
  "backoff_waits (ev # evs) = (if ev = Sleep 30 then 1 else 0) + backoff_waits evs"
  by (simp add: backoff_waits_def)




text \<open>
  Claim C10. When every one of the \<open>max_retries \<ge> 1\<close> attempts of a submitted batch
  fails, exactly \<open>max_retries - 1\<close> waits of 30 seconds occur, and the last failed attempt
  is followed by its error message, by the announcement that the batch is skipped, by
  what the harvest prints and by the cool-down: no wait of 30 seconds comes after it.
\<close>

theorem C10_no_wait_after_last_failure:
  assumes up: "probe_ok cfg E lote" and reg: "\<forall>f \<in> set batch. regular w f"
    and one: "1 \<le> max_retries cfg"
    and fail: "\<forall>a \<in> set (attempts cfg). \<not> fst (process E lote a)"
  shows "\<exists>w' pre hv. process_batch cfg E lote batch w = Normal w'
     \<and> int (backoff_waits (new_events w w')) = max_retries cfg - 1
     \<and> new_events w w' =
         pre @ [Process lote (max_retries cfg) False, Print (AttemptError (max_retries cfg)),
                Print Skipping] @ hv @ [Sleep 60]
     \<and> list_all is_extract_error hv"
proof -
  from batch_all_fail [OF up reg fail] obtain w' hv where
    r: "process_batch cfg E lote batch w = Normal w'"
       "new_events w w' =
         Print (BatchStart lote (length batch)) # up_events E lote @
         concat (map (fail_events cfg lote) (attempts cfg)) @ hv @ [Sleep 60]"
       "list_all is_extract_error hv"
    by blast
  define pre where
    "pre = Print (BatchStart lote (length batch)) # up_events E lote @
           concat (map (fail_events cfg lote) [1..max_retries cfg - 1])"
  have last: "fail_events cfg lote (max_retries cfg) =
      [Process lote (max_retries cfg) False, Print (AttemptError (max_retries cfg)), Print Skipping]"
    by (simp add: fail_events_def)
  have shape: "new_events w w' =
         pre @ [Process lote (max_retries cfg) False, Print (AttemptError (max_retries cfg)),
                Print Skipping] @ hv @ [Sleep 60]"
    by (simp add: r(2) attempts_last [OF one] last pre_def)
  have "backoff_waits (new_events w w') =
          length (filter (\<lambda>a. a \<noteq> max_retries cfg) (attempts cfg))"
    using r(3) by (simp add: r(2) waits_append waits_Cons waits_Nil waits_up waits_fail
        waits_extract_errors)
  then have "int (backoff_waits (new_events w w')) = max_retries cfg - 1"
    using attempts_waits [OF one] by simp
  with r(1,3) shape show ?thesis by blast
qed

text \<open>
  Three attempts that all fail: two waits.
\<close>

theorem C10_no_wait_after_last_failure_witness:
  "probe_ok cfg_default env_never 1 \<and> regular world_two ''a.pdf'' \<and> regular world_two ''b.pdf'' \<and>
   1 \<le> max_retries cfg_default \<and>
   attempts cfg_default = [1, 2, 3] \<and> \<not> fst (process env_never 1 1) \<and> \<not> fst (process env_never 1 2) \<and> \<not> fst (process env_never 1 3) \<and>
   (\<exists>w'. process_batch cfg_default env_never 1 [''a.pdf'', ''b.pdf''] world_two = Normal w' \<and>
      int (backoff_waits (new_events world_two w')) = 2)"
proof -
  have rg: "regular world_two ''a.pdf'' \<and> regular world_two ''b.pdf''"
    by (simp add: regular_def world_two_def)
  have nv: "attempts cfg_default = [1, 2, 3] \<and> \<not> fst (process env_never 1 1) \<and> \<not> fst (process env_never 1 2) \<and> \<not> fst (process env_never 1 3)"
    by (simp add: attempts_def cfg_default_def env_never_def upto_rec1 [of 1] upto_rec1 [of 2] upto_rec1 [of 3])
  have up: "probe_ok cfg_default env_never 1" by (simp add: probe_ok_def env_never_def)
  have reg: "\<forall>f \<in> set [''a.pdf'', ''b.pdf'']. regular world_two f"
    by (simp add: regular_def world_two_def)
  have one: "1 \<le> max_retries cfg_default" by (simp add: cfg_default_def)
  have never: "\<forall>a \<in> set (attempts cfg_default). \<not> fst (process env_never 1 a)"
    by (simp add: env_never_def)
  have "max_retries cfg_default - 1 = 2" by (simp add: cfg_default_def)
  with C10_no_wait_after_last_failure [OF up reg one never]
  have "\<exists>w'. process_batch cfg_default env_never 1 [''a.pdf'', ''b.pdf''] world_two = Normal w' \<and>
      int (backoff_waits (new_events world_two w')) = 2"
    by auto
  with up reg one never show ?thesis using rg nv by blast
qed

subsection \<open>Cleanup\<close>

text \<open>
  Claim C4. Whenever a batch cycle completes, both scratch folders are absent, whatever
  the service did (returned, failed, left files or none); a batch that passes the
  liveness check and whose files are staged does complete its cycle; removing the
  scratch folders twice is the same as removing them once, and removing them when they
  are absent changes nothing and raises nothing.
\<close>

theorem C4_scratch_removed:
  "(\<forall>w'. process_batch cfg E lote batch w = Normal w' \<longrightarrow>
        tmp_input w' = None \<and> tmp_output w' = None)
   \<and> (probe_ok cfg E lote \<and> (\<forall>f \<in> set batch. regular w f) \<longrightarrow>
        (\<exists>w'. process_batch cfg E lote batch w = Normal w' \<and>
              tmp_input w' = None \<and> tmp_output w' = None))
   \<and> remove_scratch (remove_scratch w) = remove_scratch w
   \<and> (tmp_input w = None \<and> tmp_output w = None \<longrightarrow> remove_scratch w = w)"
proof (intro conjI allI impI)
  fix w' assume "process_batch cfg E lote batch w = Normal w'"
  from process_batch_Normal [OF this]
  show "tmp_input w' = None" "tmp_output w' = None" by simp_all
next
  assume "probe_ok cfg E lote \<and> (\<forall>f \<in> set batch. regular w f)"
  then have up: "probe_ok cfg E lote" and reg: "\<forall>f \<in> set batch. regular w f" by simp_all
  from process_batch_ok [OF up reg]
  show "\<exists>w'. process_batch cfg E lote batch w = Normal w' \<and>
              tmp_input w' = None \<and> tmp_output w' = None"
    by blast
next
  show "remove_scratch (remove_scratch w) = remove_scratch w"
    by (simp add: remove_scratch_def rmtree_def)
next
  assume "tmp_input w = None \<and> tmp_output w = None"
  then show "remove_scratch w = w" by (simp add: remove_scratch_def rmtree_def)
qed

text \<open>
  Two files and a service that always fails: the cycle completes with both scratch
  folders gone.
\<close>

theorem C4_scratch_removed_witness:
  "probe_ok cfg_default env_never 1 \<and> regular world_two ''a.pdf'' \<and> regular world_two ''b.pdf'' \<and>
   tmp_input world_two = None \<and> tmp_output world_two = None \<and>
   remove_scratch world_two = world_two \<and>
   (\<exists>w'. process_batch cfg_default env_never 1 [''a.pdf'', ''b.pdf''] world_two = Normal w' \<and>
      tmp_input w' = None \<and> tmp_output w' = None)"
proof -
  have rg: "regular world_two ''a.pdf'' \<and> regular world_two ''b.pdf''"
    by (simp add: regular_def world_two_def)
  have up: "probe_ok cfg_default env_never 1" by (simp add: probe_ok_def env_never_def)
  have reg: "\<forall>f \<in> set [''a.pdf'', ''b.pdf'']. regular world_two f"
    by (simp add: regular_def world_two_def)
  have absent: "tmp_input world_two = None \<and> tmp_output world_two = None"
    by (simp add: world_two_def)
  note t = C4_scratch_removed [of cfg_default env_never 1 "[''a.pdf'', ''b.pdf'']" world_two]
  from t up reg
  have a: "\<exists>w'. process_batch cfg_default env_never 1 [''a.pdf'', ''b.pdf''] world_two = Normal w' \<and>
      tmp_input w' = None \<and> tmp_output w' = None"
    by blast
  from t absent have b: "remove_scratch world_two = world_two" by blast
  from up reg absent a b show ?thesis using rg by blast
qed

subsection \<open>The liveness check\<close>

text \<open>
  Claim C5 as stated fails in its last part: the liveness check is not the only failure
  that ends the run. With the service up, an entry of the input folder that is named
  like a PDF and is a directory makes the staging copy raise; nothing catches it, the
  run ends there and prints no summary.
\<close>

theorem C5_staging_error_ends_run:
  "probe_ok cfg_default env_third 1 \<and>
   process_pdfs_in_batches cfg_default env_third world_dir =
     Raise (IsADirectoryError ''d.pdf'')
       (world_dir\<lparr>tmp_input := Some [], tmp_output := Some [],
                  trace := [Print (Found 1), Print (BatchStart 1 1), Probe True]\<rparr>)"
  by code_simp

text \<open>
  Claim C5, amended. When the liveness check of a batch fails (for the loop with
  \<open>restart_grobid\<close>: the second probe, after the wait, fails too), the run ends there:
  the world is the one the loop had reached, with only the announcement of the batch,
  the probes and the closing summary added to the trace, so nothing is staged,
  submitted or harvested for this batch or a later one. A failed submission and a failed
  extraction do not end the run: a batch that passes the check and whose files are
  staged completes its cycle whatever the service does.
\<close>

theorem C5_halt_on_probe_failure:
  assumes down: "\<not> probe_ok cfg E (Suc (length pre))"
    and bs: "batches (list_pdfs w) (batch_size cfg) = Inr (pre @ batch # rest)"
    and before: "run_batches cfg E 0 pre (emit (Print (Found (length (list_pdfs w)))) w) = Normal w1"
  shows "process_pdfs_in_batches cfg E w =
           Normal (w1\<lparr>trace := trace w1 @
                      Print (BatchStart (Suc (length pre)) (length batch)) # down_events cfg @
                      [Print (Done (length (list_pdfs w)))]\<rparr>)
       \<and> (\<forall>E' lote b v. probe_ok cfg E' lote \<and> (\<forall>f \<in> set b. regular v f) \<longrightarrow>
             (\<exists>v'. process_batch cfg E' lote b v = Normal v'))"
proof
  have "run_batches cfg E (length pre) (batch # rest) w1 =
          Break (w1\<lparr>trace := trace w1 @
                    Print (BatchStart (Suc (length pre)) (length batch)) # down_events cfg\<rparr>)"
    using process_batch_down [OF down, of batch w1] by simp
  then have "run_batches cfg E 0 (pre @ batch # rest) (emit (Print (Found (length (list_pdfs w)))) w) =
          Break (w1\<lparr>trace := trace w1 @
                    Print (BatchStart (Suc (length pre)) (length batch)) # down_events cfg\<rparr>)"
    using before by (simp add: run_batches_append)
  then show "process_pdfs_in_batches cfg E w =
           Normal (w1\<lparr>trace := trace w1 @
                      Print (BatchStart (Suc (length pre)) (length batch)) # down_events cfg @
                      [Print (Done (length (list_pdfs w)))]\<rparr>)"
    using bs by (simp add: process_pdfs_in_batches_def Let_def emit_def)
next
  show "\<forall>E' lote b v. probe_ok cfg E' lote \<and> (\<forall>f \<in> set b. regular v f) \<longrightarrow>
             (\<exists>v'. process_batch cfg E' lote b v = Normal v')"
    using process_batch_ok by blast
qed

text \<open>
  Two files and a service that does not answer; and the same files with a service that
  is up and fails every submission.
\<close>

theorem C5_halt_on_probe_failure_witness:
  "\<not> probe_ok cfg_default env_down (Suc (length ([] :: string list list))) \<and>
   batches (list_pdfs world_two) (batch_size cfg_default) = Inr ([] @ [''a.pdf'', ''b.pdf''] # []) \<and>
   process_pdfs_in_batches cfg_default env_down world_two =
     Normal (world_two\<lparr>trace := [Print (Found 2), Print (BatchStart 1 2), Probe False,
                                  Print ServiceDown, Print (Done 2)]\<rparr>) \<and>
   probe_ok cfg_default env_never 1 \<and> regular world_two ''a.pdf'' \<and> regular world_two ''b.pdf'' \<and>
   (\<exists>v'. process_batch cfg_default env_never 1 [''a.pdf'', ''b.pdf''] world_two = Normal v')"
proof -
  have rg: "regular world_two ''a.pdf'' \<and> regular world_two ''b.pdf''"
    by (simp add: regular_def world_two_def)
  have down: "\<not> probe_ok cfg_default env_down (Suc (length ([] :: string list list)))"
    by (simp add: probe_ok_def env_down_def cfg_default_def)
  have bs: "batches (list_pdfs world_two) (batch_size cfg_default) =
              Inr ([] @ [''a.pdf'', ''b.pdf''] # [])"
    by code_simp
  have before: "run_batches cfg_default env_down 0 []
      (emit (Print (Found (length (list_pdfs world_two)))) world_two) =
      Normal (emit (Print (Found (length (list_pdfs world_two)))) world_two)"
    by simp
  have n: "length (list_pdfs world_two) = 2" by code_simp
  have up: "probe_ok cfg_default env_never 1" by (simp add: probe_ok_def env_never_def)
  have reg: "\<forall>f \<in> set [''a.pdf'', ''b.pdf'']. regular world_two f"
    by (simp add: regular_def world_two_def)
  note t = C5_halt_on_probe_failure [OF down bs before]
  have d: "down_events cfg_default = [Probe False, Print ServiceDown]"
    by (simp add: down_events_def cfg_default_def)
  have e: "trace world_two = []" by (simp add: world_two_def)
  from t have "process_pdfs_in_batches cfg_default env_down world_two =
     Normal (world_two\<lparr>trace := [Print (Found 2), Print (BatchStart 1 2), Probe False,
                                  Print ServiceDown, Print (Done 2)]\<rparr>)"
    by (simp add: n d e emit_def)
  moreover from t up reg
  have "\<exists>v'. process_batch cfg_default env_never 1 [''a.pdf'', ''b.pdf''] world_two = Normal v'"
    by blast
  ultimately show ?thesis using down bs up reg rg by blast
qed

subsection \<open>A run in which the service stays up\<close>

lemma announced_append: "announced (xs @ ys) = announced xs @ announced ys"
  by (induction xs rule: announced.induct) simp_all

lemma announced_extract_errors: "list_all is_extract_error hv \<Longrightarrow> announced hv = []"
  by (induction hv rule: announced.induct) (simp_all add: is_extract_error_def)

lemma announced_up: "announced (up_events E lote) = []"
  by (simp add: up_events_def)

lemma retry_announced:
  "\<exists>evs. trace (retry cfg E lote as w) = trace w @ evs \<and> announced evs = []"
proof (induction as arbitrary: w)
  case Nil
  show ?case by simp
next
  case (Cons a as)
  obtain ok files where p: "process E lote a = (ok, files)" by (cases "process E lote a")
  show ?case
  proof (cases ok)
    case True
    with p show ?thesis by (simp add: Let_def)
  next
    case False
    define w2 where "w2 =
      (if a = max_retries cfg
       then emit (Print Skipping) (emit (Print (AttemptError a))
              (emit (Process lote a False) (w\<lparr>tmp_output := Some files\<rparr>)))
       else emit (Sleep 30)
              (if with_restart cfg
               then emit (Print Retrying) (emit (Print (AttemptError a))
                      (emit (Process lote a False) (w\<lparr>tmp_output := Some files\<rparr>)))
               else emit (Print (AttemptError a))
                      (emit (Process lote a False) (w\<lparr>tmp_output := Some files\<rparr>))))"
    have step: "retry cfg E lote (a # as) w = retry cfg E lote as w2"
      using p False by (simp add: Let_def w2_def)
    obtain pre where pre: "trace w2 = trace w @ pre" "announced pre = []"
      by (cases "a = max_retries cfg"; cases "with_restart cfg") (simp_all add: w2_def)
    from Cons.IH [of w2] obtain evs where
      evs: "trace (retry cfg E lote as w2) = trace w2 @ evs" "announced evs = []" by blast
    have "trace (retry cfg E lote (a # as) w) = trace w @ (pre @ evs)"
      using step pre(1) evs(1) by simp
    moreover have "announced (pre @ evs) = []"
      using pre(2) evs(2) by (simp add: announced_append)
    ultimately show ?thesis by blast
  qed
qed

lemma announced_restart_check:
  "restart_every cfg \<noteq> 0 \<Longrightarrow>
   \<exists>w'. restart_check cfg lote w = Normal w' \<and> input_dir w' = input_dir w \<and>
        announced (trace w') = announced (trace w)"
  by (simp add: restart_check_def restart_grobid_def emit_def announced_append)

lemma process_batch_announced:
  assumes up: "probe_ok cfg E lote" and reg: "\<forall>f \<in> set batch. regular w f"
  shows "\<exists>w'. process_batch cfg E lote batch w = Normal w' \<and> input_dir w' = input_dir w \<and>
     announced (trace w') = announced (trace w) @ [(lote, length batch)]"
proof -
  from process_batch_ok [OF up reg] obtain w2 w' hv where
    h: "process_batch cfg E lote batch w = Normal w'"
       "trace w2 = trace w @ Print (BatchStart lote (length batch)) # up_events E lote"
       "trace w' = trace (retry cfg E lote (attempts cfg) w2) @ hv @ [Sleep 60]"
       "list_all is_extract_error hv" "input_dir w' = input_dir w"
    by blast
  from retry_announced [of cfg E lote "attempts cfg" w2] obtain evs where
    evs: "trace (retry cfg E lote (attempts cfg) w2) = trace w2 @ evs" "announced evs = []"
    by blast
  have "announced (trace w') = announced (trace w) @ [(lote, length batch)]"
    using h(2,3,4) evs
    by (simp add: announced_append announced_up announced_extract_errors)
  with h(1,5) show ?thesis by blast
qed

lemma run_batches_all:
  assumes up: "\<forall>lote. probe_ok cfg E lote" and nz: "restart_every cfg \<noteq> 0"
  shows "\<forall>f \<in> set (concat bs). regular w f \<Longrightarrow>
     \<exists>w'. run_batches cfg E idx bs w = Normal w' \<and>
          announced (trace w') = announced (trace w) @ numbered idx bs"
proof (induction bs arbitrary: idx w)
  case Nil
  show ?case by simp
next
  case (Cons b bs)
  from Cons.prems have regb: "\<forall>f \<in> set b. regular w f" by simp
  from up have upb: "probe_ok cfg E (Suc idx)" by simp
  from process_batch_announced [OF upb regb] obtain w1 where
    w1: "process_batch cfg E (Suc idx) b w = Normal w1" "input_dir w1 = input_dir w"
        "announced (trace w1) = announced (trace w) @ [(Suc idx, length b)]"
    by blast
  from announced_restart_check [OF nz, of "Suc idx" w1] obtain w2 where
    w2: "restart_check cfg (Suc idx) w1 = Normal w2" "input_dir w2 = input_dir w1"
        "announced (trace w2) = announced (trace w1)"
    by blast
  have "\<forall>f \<in> set (concat bs). regular w2 f"
    using Cons.prems w1(2) w2(2) by (simp add: regular_def)
  from Cons.IH [OF this, of "Suc idx"] obtain w' where
    w': "run_batches cfg E (Suc idx) bs w2 = Normal w'"
        "announced (trace w') = announced (trace w2) @ numbered (Suc idx) bs"
    by blast
  have "run_batches cfg E idx (b # bs) w = Normal w'"
    using w1(1) w2(1) w'(1) by simp
  moreover have "announced (trace w') = announced (trace w) @ numbered idx (b # bs)"
    using w'(2) w2(3) w1(3) by simp
  ultimately show ?case by blast
qed

text \<open>
  With the service up at every check, regular files and a restart interval that is not
  zero, the run returns and has announced, in order, exactly the batches that the loop
  header enumerates, whatever the submissions and extractions did.
\<close>

lemma run_processes_every_batch:
  assumes up: "\<forall>lote. probe_ok cfg E lote" and nz: "restart_every cfg \<noteq> 0"
    and reg: "\<forall>f \<in> set (list_pdfs w). regular w f"
    and pos: "1 \<le> batch_size cfg"
  shows "\<exists>bs w'. batches (list_pdfs w) (batch_size cfg) = Inr bs \<and>
     process_pdfs_in_batches cfg E w = Normal w' \<and>
     announced (trace w') = announced (trace w) @ numbered 0 bs"
proof -
  define bs where "bs = map (\<lambda>s. slice (list_pdfs w) s (s + nat (batch_size cfg)))
      (range_from 0 (length (list_pdfs w)) (nat (batch_size cfg)))"
  have bs: "batches (list_pdfs w) (batch_size cfg) = Inr bs"
    using batches_pos [OF pos] by (simp add: bs_def)
  have cat: "concat bs = list_pdfs w"
    using range_from_concat [of "nat (batch_size cfg)" "list_pdfs w" 0] pos by (simp add: bs_def)
  define w0 where "w0 = emit (Print (Found (length (list_pdfs w)))) w"
  have "\<forall>f \<in> set (concat bs). regular w0 f"
    using reg cat by (simp add: w0_def regular_def emit_def)
  from run_batches_all [OF up nz this, of 0] obtain w1 where
    w1: "run_batches cfg E 0 bs w0 = Normal w1"
        "announced (trace w1) = announced (trace w0) @ numbered 0 bs"
    by blast
  define w' where "w' = emit (Print (Done (length (list_pdfs w)))) w1"
  have run: "process_pdfs_in_batches cfg E w = Normal w'"
    using bs w1(1) by (simp add: process_pdfs_in_batches_def Let_def w0_def w'_def)
  have "announced (trace w') = announced (trace w) @ numbered 0 bs"
    using w1(2) by (simp add: w'_def w0_def announced_append)
  with bs run show ?thesis by blast
qed

subsection \<open>The batches the scheduler processes\<close>





end
